theory Spec2Isabelle
  imports Main
begin

section \<open>XEO.Model: a glTF model bound to a collection of components\<close>

text \<open>
  The development follows \<^verbatim>\<open>src/importing/model.js\<close>. A Model owns one
  \<^verbatim>\<open>XEO.Collection\<close> and one path \<^verbatim>\<open>_src\<close>. Assigning \<^verbatim>\<open>src\<close> destroys the
  components loaded before, hands the path and the collection to the global
  \<^verbatim>\<open>XEO.GLTFLoader\<close> and fires \<^verbatim>\<open>"src"\<close>; the loader calls back later, and the
  callback fires \<^verbatim>\<open>"loaded"\<close>.

  JavaScript is single threaded: every function below runs to completion, and
  the loader's asynchronous work shows up as separate steps (\<open>produce\<close>,
  \<open>finish\<close>) taken between the Model's own operations. Listeners that other
  code registers for the Model's notifications are not part of the file and
  are not modelled: a notification is recorded when it is fired.
\<close>

subsection \<open>JavaScript values\<close>

text \<open>
  The values a caller can assign to \<^verbatim>\<open>src\<close> or pass as \<^verbatim>\<open>cfg.src\<close>. Numbers are
  kept as integers plus \<^verbatim>\<open>NaN\<close>: the code only tests them for truthiness.
  \<open>JObj\<close> is any object that is not a string.
\<close>

datatype jsval =
    Undefined
  | Null
  | JBool bool
  | JNum int
  | JNaN
  | JStr string
  | JObj

text \<open>\<^verbatim>\<open>!value\<close> is \<open>\<not> truthy value\<close>.\<close>

fun truthy :: "jsval \<Rightarrow> bool" where
  "truthy Undefined = False"
| "truthy Null = False"
| "truthy (JBool b) = b"
| "truthy (JNum n) = (n \<noteq> 0)"
| "truthy JNaN = False"
| "truthy (JStr s) = (s \<noteq> [])"
| "truthy JObj = True"

text \<open>
  Modelled from the spec: \<^verbatim>\<open>XEO._isString\<close> is not in \<^verbatim>\<open>model.js\<close>. The spec
  speaks of "a non-string value" and "a string"; the test holds of string
  values and of nothing else.
\<close>

fun isString :: "jsval \<Rightarrow> bool" where
  "isString (JStr s) = True"
| "isString v = False"

subsection \<open>The world: the Model, its collection, the loader, the trace\<close>

type_synonym handle = nat
type_synonym cref = nat

text \<open>
  The one function literal of the file, the completion callback handed to
  \<^verbatim>\<open>glTFLoader.load\<close> (lines 192 to 200), defunctionalised. It captures
  \<^verbatim>\<open>self\<close> and nothing else.
\<close>

datatype closure = OnLoaded

text \<open>
  The trace lists, in program order, what the Model does to the outside and to
  its own fields: writes of \<^verbatim>\<open>_collection\<close> and \<^verbatim>\<open>_src\<close>, calls of
  \<^verbatim>\<open>this.error\<close>, of a component's \<^verbatim>\<open>destroy\<close>, of the three loader entry
  points and of \<^verbatim>\<open>this.fire\<close>; and what the loader does on its side: an object
  put into the sink, a completion callback invoked. \<open>LoaderLoad\<close> records the
  number of the load, the path and sink the loader was configured with, and the
  members the sink held at the moment of the call. \<open>Report\<close> is the host's
  reporting channel; \<^verbatim>\<open>this.error\<close> is the only call of the file that writes
  to it.
\<close>

datatype action =
    CollectionCreated cref
  | SrcWritten jsval
  | Report string
  | ComponentDestroyed handle
  | LoaderSetCollection cref
  | LoaderInitWithPath jsval
  | LoaderLoad nat jsval "cref option" "handle list"
  | LoaderProduced nat handle
  | LoaderOnComplete nat
  | Fired string jsval

record request =
  load_id :: nat
  load_path :: jsval
  load_sink :: "cref option"
  on_complete :: closure

text \<open>
  \<open>m_collection\<close> and \<open>m_src\<close> are the Model's fields \<^verbatim>\<open>_collection\<close> (a
  reference into the store \<open>colls\<close> of collection objects) and \<^verbatim>\<open>_src\<close>. The
  constructor writes both before anything reads them. The \<open>loader_\<close> fields,
  \<open>pending\<close> and the two counters are the state of the global loader; \<open>next_ref\<close>
  is the allocator of collection objects.
\<close>

record world =
  next_ref :: cref
  colls :: "cref \<Rightarrow> handle list"
  m_collection :: cref
  m_src :: jsval
  loader_sink :: "cref option"
  loader_path :: jsval
  pending :: "request list"
  next_load :: nat
  next_handle :: handle
  trace :: "action list"

definition emit :: "action \<Rightarrow> world \<Rightarrow> world" where
  "emit a w = w\<lparr>trace := trace w @ [a]\<rparr>"

text \<open>The members of the Model's own collection.\<close>

definition members :: "world \<Rightarrow> handle list" where
  "members w = colls w (m_collection w)"

text \<open>What a step from \<open>w\<close> to \<open>w'\<close> appended to the trace.\<close>

definition new_actions :: "world \<Rightarrow> world \<Rightarrow> action list" where
  "new_actions w w' = drop (length (trace w)) (trace w')"

subsection \<open>Collaborators that are not in \<^verbatim>\<open>model.js\<close>\<close>

text \<open>
  Modelled from the spec: \<^verbatim>\<open>XEO.Component.fire\<close> (the base class) is not in
  \<^verbatim>\<open>model.js\<close>. A notification is emitted synchronously, with its payload.
\<close>

definition fire :: "string \<Rightarrow> jsval \<Rightarrow> world \<Rightarrow> world" where
  "fire name payload w = emit (Fired name payload) w"

text \<open>
  Modelled from the spec: \<^verbatim>\<open>XEO.Component.error\<close> (the base class) is not in
  \<^verbatim>\<open>model.js\<close>. An error is reported on the host's channel and not thrown.
\<close>

definition error :: "string \<Rightarrow> world \<Rightarrow> world" where
  "error msg w = emit (Report msg) w"

text \<open>
  Modelled from the spec: the constructor of \<^verbatim>\<open>XEO.Collection\<close> is not in
  \<^verbatim>\<open>model.js\<close>. It makes a new, empty collection object.
\<close>

definition new_Collection :: "world \<Rightarrow> cref \<times> world" where
  "new_Collection w =
     (next_ref w, w\<lparr>next_ref := Suc (next_ref w), colls := (colls w)(next_ref w := [])\<rparr>)"

text \<open>
  Modelled from the spec: \<^verbatim>\<open>XEO.Collection.add\<close> is not in \<^verbatim>\<open>model.js\<close>. A
  collection is an ordered set of handles in insertion order; \<open>add\<close> appends a
  handle and is a no-op if the handle is a member already.
\<close>

definition add :: "handle \<Rightarrow> handle list \<Rightarrow> handle list" where
  "add h ms = (if h \<in> set ms then ms else ms @ [h])"

text \<open>
  Modelled from the spec: \<^verbatim>\<open>XEO.Collection.iterate\<close> is not in \<^verbatim>\<open>model.js\<close>.
  It visits the current members in insertion order.
\<close>

definition iterate :: "handle list \<Rightarrow> (handle \<Rightarrow> 'a \<Rightarrow> 'a) \<Rightarrow> 'a \<Rightarrow> 'a" where
  "iterate ms visit acc = fold visit ms acc"

text \<open>
  Modelled from the spec: the \<^verbatim>\<open>destroy\<close> operation of a loaded component
  (\<^verbatim>\<open>XEO.Component.destroy\<close>) is not in \<^verbatim>\<open>model.js\<close>. The object's destructor
  removes the object from the containers it belongs to.
\<close>

definition component_destroy :: "handle \<Rightarrow> world \<Rightarrow> world" where
  "component_destroy h w =
     emit (ComponentDestroyed h) (w\<lparr>colls := (\<lambda>r. removeAll h (colls w r))\<rparr>)"

text \<open>
  Modelled from the spec: \<^verbatim>\<open>XEO.GLTFLoader.setCollection\<close> is not in
  \<^verbatim>\<open>model.js\<close>. It associates the loads that follow with a sink.
\<close>

definition setCollection :: "cref \<Rightarrow> world \<Rightarrow> world" where
  "setCollection c w = emit (LoaderSetCollection c) (w\<lparr>loader_sink := Some c\<rparr>)"

text \<open>
  Modelled from the spec: \<^verbatim>\<open>XEO.GLTFLoader.initWithPath\<close> is not in
  \<^verbatim>\<open>model.js\<close>. It associates the loads that follow with a path.
\<close>

definition initWithPath :: "jsval \<Rightarrow> world \<Rightarrow> world" where
  "initWithPath p w = emit (LoaderInitWithPath p) (w\<lparr>loader_path := p\<rparr>)"

text \<open>The members of the sink the loader is configured with, if it has one.\<close>

definition sink_members :: "world \<Rightarrow> cref option \<Rightarrow> handle list" where
  "sink_members w s = (case s of None \<Rightarrow> [] | Some c \<Rightarrow> colls w c)"

text \<open>
  Modelled from the spec: \<^verbatim>\<open>XEO.GLTFLoader.load\<close> is not in \<^verbatim>\<open>model.js\<close>. It
  begins an asynchronous load: it registers a request, with the path, the sink
  and the completion callback, and returns.
\<close>

definition load :: "jsval \<Rightarrow> jsval \<Rightarrow> closure \<Rightarrow> world \<Rightarrow> world" where
  "load userInfo options callback w =
     emit (LoaderLoad (next_load w) (loader_path w) (loader_sink w)
             (sink_members w (loader_sink w)))
       (w\<lparr>pending := pending w @
             [\<lparr>load_id = next_load w, load_path = loader_path w,
               load_sink = loader_sink w, on_complete = callback\<rparr>],
          next_load := Suc (next_load w)\<rparr>)"

text \<open>The outstanding request with number \<open>i\<close>.\<close>

definition lookup_request :: "nat \<Rightarrow> world \<Rightarrow> request option" where
  "lookup_request i w = find (\<lambda>r. load_id r = i) (pending w)"

text \<open>
  Modelled from the spec: the loader's work on a request is not in
  \<^verbatim>\<open>model.js\<close>. While request \<open>i\<close> is outstanding the loader creates runtime
  objects, each a new one, and inserts each into the request's sink with
  \<open>add\<close> as it becomes available.
\<close>

definition produce :: "nat \<Rightarrow> world \<Rightarrow> world" where
  "produce i w =
     (case lookup_request i w of
        None \<Rightarrow> w
      | Some r \<Rightarrow>
          emit (LoaderProduced i (next_handle w))
            (w\<lparr>colls := (case load_sink r of
                            None \<Rightarrow> colls w
                          | Some c \<Rightarrow> (colls w)(c := add (next_handle w) (colls w c))),
               next_handle := Suc (next_handle w)\<rparr>))"

subsection \<open>The Model\<close>

text \<open>
  The body of the completion callback (lines 192 to 200):
  \<^verbatim>\<open>self.fire("loaded")\<close>.
\<close>

fun call :: "closure \<Rightarrow> world \<Rightarrow> world" where
  "call OnLoaded w = fire ''loaded'' Undefined w"

text \<open>
  Modelled from the spec: the loader's completion of a request is not in
  \<^verbatim>\<open>model.js\<close>. The loader invokes the completion callback of an outstanding
  request exactly once, upon finishing; the request is gone afterwards.
\<close>

definition finish :: "nat \<Rightarrow> world \<Rightarrow> world" where
  "finish i w =
     (case lookup_request i w of
        None \<Rightarrow> w
      | Some r \<Rightarrow>
          call (on_complete r)
            (emit (LoaderOnComplete i)
               (w\<lparr>pending := filter (\<lambda>q. load_id q \<noteq> i) (pending w)\<rparr>)))"

text \<open>
  \<^verbatim>\<open>_clear\<close>, first half: \<^verbatim>\<open>c = []\<close> and the visitor that pushes each component.
\<close>

definition snapshot :: "world \<Rightarrow> handle list" where
  "snapshot w = iterate (members w) (\<lambda>component c. c @ [component]) []"

text \<open>
  \<^verbatim>\<open>_clear\<close>, second half: \<^verbatim>\<open>while (c.length) { c.pop().destroy(); }\<close>.
  \<^verbatim>\<open>pop\<close> takes the last element of the array.
\<close>

function destroy_all :: "handle list \<Rightarrow> world \<Rightarrow> world" where
  "destroy_all c w =
     (if c = [] then w else destroy_all (butlast c) (component_destroy (last c) w))"
  by pat_completeness auto
termination
  by (relation "measure (\<lambda>(c, w). length c)") auto

declare destroy_all.simps [simp del]

definition clear :: "world \<Rightarrow> world" where
  "clear w = destroy_all (snapshot w) w"

text \<open>The setter of \<^verbatim>\<open>src\<close> (lines 169 to 208).\<close>

definition src_set :: "jsval \<Rightarrow> world \<Rightarrow> world" where
  "src_set value w =
     (if \<not> truthy value then w
      else if \<not> isString value then error ''Value for 'src' should be a string'' w
      else
        let w1 = clear w;
            w2 = emit (SrcWritten value) (w1\<lparr>m_src := value\<rparr>);
            w3 = setCollection (m_collection w2) w2;
            w4 = initWithPath (m_src w3) w3;
            w5 = load Null Null OnLoaded w4
        in fire ''src'' (m_src w5) w5)"

definition src_get :: "world \<Rightarrow> jsval" where
  "src_get w = m_src w"

definition collection_get :: "world \<Rightarrow> cref" where
  "collection_get w = m_collection w"

text \<open>
  \<^verbatim>\<open>_init\<close> (lines 129 to 152). \<^verbatim>\<open>this._super(cfg)\<close> touches nothing that is
  modelled here. \<open>cfg_src\<close> is \<open>Undefined\<close> when the config has no \<^verbatim>\<open>src\<close>.
  The first message ends with an apostrophe, written \<open>CHR 0x27\<close>.
\<close>

record config =
  cfg_src :: jsval

definition init :: "config \<Rightarrow> world \<Rightarrow> world" where
  "init cfg w =
     (let (c, w1) = new_Collection w;
          w2 = emit (CollectionCreated c) (w1\<lparr>m_collection := c\<rparr>);
          w3 = emit (SrcWritten Null) (w2\<lparr>m_src := Null\<rparr>)
      in if \<not> truthy (cfg_src cfg) then error (''Config missing: 'src'' @ [CHR 0x27]) w3
         else if \<not> isString (cfg_src cfg)
           then error ''Value for config 'src' should be a string'' w3
         else src_set (cfg_src cfg) w3)"

text \<open>\<^verbatim>\<open>_getJSON\<close>: an object literal with the one property \<^verbatim>\<open>src\<close>.\<close>

definition getJSON :: "world \<Rightarrow> (string \<times> jsval) list" where
  "getJSON w = [(''src'', m_src w)]"

text \<open>
  \<^verbatim>\<open>_destroy\<close>, the hook of the Model that \<^verbatim>\<open>destroy()\<close> of the base class
  runs.
\<close>

definition destroy :: "world \<Rightarrow> world" where
  "destroy w = clear w"

subsection \<open>Runs\<close>

text \<open>
  The world before any Model is constructed, and the steps that can follow a
  construction: assignments to \<^verbatim>\<open>src\<close>, \<^verbatim>\<open>destroy\<close>, and the loader's own
  progress on an outstanding request.
\<close>

definition boot :: world where
  "boot = \<lparr>next_ref = 0, colls = (\<lambda>r. []), m_collection = 0, m_src = Undefined,
           loader_sink = None, loader_path = Undefined, pending = [],
           next_load = 0, next_handle = 0, trace = []\<rparr>"

datatype op = Assign jsval | Destroy | Produce nat | Finish nat

fun step :: "op \<Rightarrow> world \<Rightarrow> world" where
  "step (Assign v) w = src_set v w"
| "step Destroy w = destroy w"
| "step (Produce i) w = produce i w"
| "step (Finish i) w = finish i w"

definition run :: "op list \<Rightarrow> world \<Rightarrow> world" where
  "run ops w = fold step ops w"

subsection \<open>Predicates of the statements\<close>

text \<open>
  Request \<open>i\<close> is superseded (stale) when it is still outstanding and a later
  load has been started since: load numbers are handed out in order, so the
  current load is the one numbered \<open>next_load w - 1\<close>.
\<close>

definition superseded :: "nat \<Rightarrow> world \<Rightarrow> bool" where
  "superseded i w = (lookup_request i w \<noteq> None \<and> Suc i < next_load w)"

text \<open>The values \<^verbatim>\<open>_src\<close> takes: \<^verbatim>\<open>null\<close> or a non-empty string.\<close>

definition path_or_null :: "jsval \<Rightarrow> bool" where
  "path_or_null v = (case v of Null \<Rightarrow> True | JStr p \<Rightarrow> p \<noteq> [] | _ \<Rightarrow> False)"

text \<open>How many collection objects a stretch of the trace creates.\<close>

definition creations :: "action list \<Rightarrow> nat" where
  "creations as =
     length (filter (\<lambda>a. case a of CollectionCreated c \<Rightarrow> True | _ \<Rightarrow> False) as)"

text \<open>
  \<open>announced i t\<close>: somewhere in \<open>t\<close> the loader was asked for load \<open>i\<close> and
  the very next action fired \<^verbatim>\<open>"src"\<close>, which is how the setter that
  started load \<open>i\<close> ends.
\<close>

definition starts :: "nat \<Rightarrow> action \<Rightarrow> bool" where
  "starts i a = (case a of LoaderLoad j p s ms \<Rightarrow> j = i | _ \<Rightarrow> False)"

definition is_src :: "action \<Rightarrow> bool" where
  "is_src a = (case a of Fired n v \<Rightarrow> n = ''src'' | _ \<Rightarrow> False)"

primrec announced :: "nat \<Rightarrow> action list \<Rightarrow> bool" where
  "announced i [] = False"
| "announced i (a # t) =
     ((starts i a \<and> (case t of [] \<Rightarrow> False | b # u \<Rightarrow> is_src b)) \<or> announced i t)"

subsection \<open>Invariants of runs\<close>

text \<open>
  \<open>ordered\<close>: every outstanding request was announced, and every completion
  in the trace comes after the announcement of its load and is followed at
  once by \<^verbatim>\<open>"loaded"\<close>. \<open>tidy\<close>: no collection holds a handle twice.
  \<open>allocated\<close>: the handles in the collections were all handed out by the
  loader's counter. \<open>fresh_from n\<close>: the Model's collection holds only handles
  created at or after \<open>n\<close>.
\<close>

definition ordered :: "world \<Rightarrow> bool" where
  "ordered w =
     ((\<forall>r \<in> set (pending w). announced (load_id r) (trace w)) \<and>
      (\<forall>pre i post. trace w = pre @ LoaderOnComplete i # post \<longrightarrow>
         announced i pre \<and> (\<exists>post'. post = Fired ''loaded'' Undefined # post')))"

definition tidy :: "world \<Rightarrow> bool" where
  "tidy w = (\<forall>r. distinct (colls w r))"

definition allocated :: "world \<Rightarrow> bool" where
  "allocated w = (\<forall>r. \<forall>h \<in> set (colls w r). h < next_handle w)"

definition fresh_from :: "handle \<Rightarrow> world \<Rightarrow> bool" where
  "fresh_from n w = (n \<le> next_handle w \<and> (\<forall>h \<in> set (members w). n \<le> h))"

subsection \<open>Scenarios\<close>

text \<open>
  A Model constructed with a path; the same Model after the loader has put two
  objects into its collection; after that load has completed as well; and the
  constructed Model after a second path was assigned while the first load was
  still outstanding.
\<close>

definition constructed :: world where
  "constructed = init \<lparr>cfg_src = JStr ''a.gltf''\<rparr> boot"

definition loaded_two :: world where
  "loaded_two = run [Produce 0, Produce 0] constructed"

definition loaded :: world where
  "loaded = run [Produce 0, Produce 0, Finish 0] constructed"

definition reassigned :: world where
  "reassigned = run [Assign (JStr ''b.gltf'')] constructed"

section \<open>Basic facts\<close>

subsection \<open>Clearing\<close>

text \<open>The visitor copies the members, in order, into the array.\<close>

lemma snapshot_members: "snapshot w = members w"
proof -
  have "fold (\<lambda>component c. c @ [component]) ms acc = acc @ ms" for ms acc :: "handle list"
    by (induction ms arbitrary: acc) simp_all
  then show ?thesis by (simp add: snapshot_def iterate_def)
qed

lemma destroy_all_Nil: "destroy_all [] w = w"
  by (simp add: destroy_all.simps)

lemma destroy_all_snoc: "destroy_all (c @ [h]) w = destroy_all c (component_destroy h w)"
  by (subst destroy_all.simps) simp

text \<open>
  The loop as a whole: the array is destroyed from its end, and whatever was in
  the array has left every collection.
\<close>

lemma destroy_all_eq:
  "destroy_all c w =
     w\<lparr>colls := (\<lambda>r. filter (\<lambda>h. h \<notin> set c) (colls w r)),
       trace := trace w @ map ComponentDestroyed (rev c)\<rparr>"
proof (induction c arbitrary: w rule: rev_induct)
  case Nil
  show ?case by (simp add: destroy_all_Nil)
next
  case (snoc h c)
  have "filter (\<lambda>x. x \<notin> set c) (removeAll h ms) = filter (\<lambda>x. x \<noteq> h \<and> x \<notin> set c) ms"
    for ms :: "handle list"
    by (induction ms) auto
  then show ?case
    by (simp add: destroy_all_snoc snoc.IH component_destroy_def emit_def)
qed

lemma clear_eq:
  "clear w =
     w\<lparr>colls := (\<lambda>r. filter (\<lambda>h. h \<notin> set (members w)) (colls w r)),
       trace := trace w @ map ComponentDestroyed (rev (members w))\<rparr>"
  by (simp add: clear_def snapshot_members destroy_all_eq)

lemma members_clear: "members (clear w) = []"
  by (simp add: clear_eq members_def)

lemma clear_empty: "members w = [] \<Longrightarrow> clear w = w"
  by (simp add: clear_eq)

lemma trace_clear: "trace (clear w) = trace w @ map ComponentDestroyed (rev (members w))"
  by (simp add: clear_eq)

lemma new_actions_append: "trace w' = trace w @ as \<Longrightarrow> new_actions w w' = as"
  by (simp add: new_actions_def)

lemma new_actions_clear: "new_actions w (clear w) = map ComponentDestroyed (rev (members w))"
  by (rule new_actions_append) (rule trace_clear)

subsection \<open>The setter on a non-empty string\<close>

lemma src_set_valid:
  assumes "p \<noteq> []"
  shows "src_set (JStr p) w =
     w\<lparr>colls := (\<lambda>r. filter (\<lambda>h. h \<notin> set (members w)) (colls w r)),
       m_src := JStr p,
       loader_sink := Some (m_collection w),
       loader_path := JStr p,
       pending := pending w @
         [\<lparr>load_id = next_load w, load_path = JStr p,
           load_sink = Some (m_collection w), on_complete = OnLoaded\<rparr>],
       next_load := Suc (next_load w),
       trace := trace w @ map ComponentDestroyed (rev (members w)) @
         [SrcWritten (JStr p), LoaderSetCollection (m_collection w),
          LoaderInitWithPath (JStr p),
          LoaderLoad (next_load w) (JStr p) (Some (m_collection w)) [],
          Fired ''src'' (JStr p)]\<rparr>"
  using assms
  by (simp add: src_set_def clear_eq setCollection_def initWithPath_def load_def fire_def
      emit_def sink_members_def members_def Let_def)

subsection \<open>The scenarios, evaluated\<close>

lemma constructed_eq:
  "constructed =
     \<lparr>next_ref = 1, colls = (\<lambda>r. []), m_collection = 0, m_src = JStr ''a.gltf'',
      loader_sink = Some 0, loader_path = JStr ''a.gltf'',
      pending = [\<lparr>load_id = 0, load_path = JStr ''a.gltf'', load_sink = Some 0,
                  on_complete = OnLoaded\<rparr>],
      next_load = 1, next_handle = 0,
      trace = [CollectionCreated 0, SrcWritten Null, SrcWritten (JStr ''a.gltf''),
               LoaderSetCollection 0, LoaderInitWithPath (JStr ''a.gltf''),
               LoaderLoad 0 (JStr ''a.gltf'') (Some 0) [],
               Fired ''src'' (JStr ''a.gltf'')]\<rparr>"
  by (simp add: constructed_def init_def new_Collection_def boot_def emit_def src_set_valid
      members_def fun_eq_iff)

lemma loaded_two_members: "members loaded_two = [0, 1]"
  by (simp add: loaded_two_def run_def constructed_eq produce_def lookup_request_def
      emit_def add_def members_def)

lemma reassigned_eq:
  "reassigned =
     \<lparr>next_ref = 1, colls = (\<lambda>r. []), m_collection = 0, m_src = JStr ''b.gltf'',
      loader_sink = Some 0, loader_path = JStr ''b.gltf'',
      pending = [\<lparr>load_id = 0, load_path = JStr ''a.gltf'', load_sink = Some 0,
                  on_complete = OnLoaded\<rparr>,
                 \<lparr>load_id = 1, load_path = JStr ''b.gltf'', load_sink = Some 0,
                  on_complete = OnLoaded\<rparr>],
      next_load = 2, next_handle = 0,
      trace = [CollectionCreated 0, SrcWritten Null, SrcWritten (JStr ''a.gltf''),
               LoaderSetCollection 0, LoaderInitWithPath (JStr ''a.gltf''),
               LoaderLoad 0 (JStr ''a.gltf'') (Some 0) [],
               Fired ''src'' (JStr ''a.gltf''),
               SrcWritten (JStr ''b.gltf''),
               LoaderSetCollection 0, LoaderInitWithPath (JStr ''b.gltf''),
               LoaderLoad 1 (JStr ''b.gltf'') (Some 0) [],
               Fired ''src'' (JStr ''b.gltf'')]\<rparr>"
  by (simp add: reassigned_def run_def constructed_eq src_set_valid members_def fun_eq_iff)

lemma loaded_eq:
  "loaded =
     \<lparr>next_ref = 1, colls = (\<lambda>r. [])(0 := [0, 1]), m_collection = 0, m_src = JStr ''a.gltf'',
      loader_sink = Some 0, loader_path = JStr ''a.gltf'',
      pending = [],
      next_load = 1, next_handle = 2,
      trace = [CollectionCreated 0, SrcWritten Null, SrcWritten (JStr ''a.gltf''),
               LoaderSetCollection 0, LoaderInitWithPath (JStr ''a.gltf''),
               LoaderLoad 0 (JStr ''a.gltf'') (Some 0) [],
               Fired ''src'' (JStr ''a.gltf''), LoaderProduced 0 0, LoaderProduced 0 1,
               LoaderOnComplete 0, Fired ''loaded'' Undefined]\<rparr>"
  by (simp add: loaded_def run_def constructed_eq produce_def finish_def lookup_request_def
      emit_def add_def fire_def fun_eq_iff)

subsection \<open>Runs and the ways through the setter and the constructor\<close>

lemma run_Nil: "run [] w = w"
  by (simp add: run_def)

lemma run_Cons: "run (x # ops) w = run ops (step x w)"
  by (simp add: run_def)

lemma run_snoc: "run (ops @ [x]) w = step x (run ops w)"
  by (simp add: run_def)

lemma run_append: "run (ops @ ops') w = run ops' (run ops w)"
  by (simp add: run_def)

lemma run_invariant:
  assumes "P w" and "\<And>x v. P v \<Longrightarrow> P (step x v)"
  shows "P (run ops w)"
  using assms(1)
proof (induction ops arbitrary: w)
  case Nil
  then show ?case by (simp add: run_Nil)
next
  case (Cons x ops)
  then show ?case by (simp add: run_Cons assms(2))
qed

text \<open>The three ways through the setter.\<close>

lemma src_set_cases:
  obtains (falsy) "\<not> truthy v" "src_set v w = w"
  | (not_string) "truthy v" "\<not> isString v"
      "src_set v w = w\<lparr>trace := trace w @ [Report ''Value for 'src' should be a string'']\<rparr>"
  | (valid) p where "v = JStr p" "p \<noteq> []"
proof (cases "truthy v")
  case False
  then show ?thesis by (simp add: falsy src_set_def)
next
  case True
  show ?thesis
  proof (cases "isString v")
    case False
    with True show ?thesis by (simp add: not_string src_set_def error_def emit_def)
  next
    case s: True
    then obtain p where "v = JStr p" by (cases v) simp_all
    with True show ?thesis by (simp add: valid)
  qed
qed

lemma finish_outstanding:
  "lookup_request i w = Some r \<Longrightarrow>
   finish i w =
     w\<lparr>pending := filter (\<lambda>q. load_id q \<noteq> i) (pending w),
       trace := trace w @ [LoaderOnComplete i, Fired ''loaded'' Undefined]\<rparr>"
  by (cases "on_complete r") (simp add: finish_def fire_def emit_def)

lemma finish_absent: "lookup_request i w = None \<Longrightarrow> finish i w = w"
  by (simp add: finish_def)

lemma m_collection_src_set: "m_collection (src_set v w) = m_collection w"
  by (cases v w rule: src_set_cases) (simp_all add: src_set_valid)

lemma m_collection_step: "m_collection (step x w) = m_collection w"
proof (cases x)
  case (Assign v)
  then show ?thesis by (simp add: m_collection_src_set)
next
  case Destroy
  then show ?thesis by (simp add: destroy_def clear_eq)
next
  case (Produce i)
  then show ?thesis by (simp add: produce_def emit_def split: option.splits)
next
  case (Finish i)
  then show ?thesis
    by (cases "lookup_request i w") (simp_all add: finish_absent finish_outstanding)
qed

lemma m_collection_run: "m_collection (run ops w) = m_collection w"
  by (induction ops arbitrary: w) (simp_all add: run_Nil run_Cons m_collection_step)

lemma m_src_src_set: "path_or_null (m_src w) \<Longrightarrow> path_or_null (m_src (src_set v w))"
  by (cases v w rule: src_set_cases) (simp_all add: src_set_valid path_or_null_def)

lemma m_src_step: "path_or_null (m_src w) \<Longrightarrow> path_or_null (m_src (step x w))"
proof (cases x)
  case (Assign v)
  assume "path_or_null (m_src w)"
  with Assign show ?thesis by (simp add: m_src_src_set)
next
  case Destroy
  assume "path_or_null (m_src w)"
  with Destroy show ?thesis by (simp add: destroy_def clear_eq)
next
  case (Produce i)
  assume "path_or_null (m_src w)"
  with Produce show ?thesis by (simp add: produce_def emit_def split: option.splits)
next
  case (Finish i)
  assume "path_or_null (m_src w)"
  with Finish show ?thesis
    by (cases "lookup_request i w") (simp_all add: finish_absent finish_outstanding)
qed

lemma init_cases:
  obtains (missing) "\<not> truthy (cfg_src cfg)"
      "init cfg w =
         w\<lparr>next_ref := Suc (next_ref w), colls := (colls w)(next_ref w := []),
           m_collection := next_ref w, m_src := Null,
           trace := trace w @ [CollectionCreated (next_ref w), SrcWritten Null,
                               Report (''Config missing: 'src'' @ [CHR 0x27])]\<rparr>"
  | (not_string) "truthy (cfg_src cfg)" "\<not> isString (cfg_src cfg)"
      "init cfg w =
         w\<lparr>next_ref := Suc (next_ref w), colls := (colls w)(next_ref w := []),
           m_collection := next_ref w, m_src := Null,
           trace := trace w @ [CollectionCreated (next_ref w), SrcWritten Null,
                               Report ''Value for config 'src' should be a string'']\<rparr>"
  | (valid) p where "cfg_src cfg = JStr p" "p \<noteq> []"
      "init cfg w =
         w\<lparr>next_ref := Suc (next_ref w), colls := (colls w)(next_ref w := []),
           m_collection := next_ref w, m_src := JStr p,
           loader_sink := Some (next_ref w), loader_path := JStr p,
           pending := pending w @
             [\<lparr>load_id = next_load w, load_path = JStr p,
               load_sink = Some (next_ref w), on_complete = OnLoaded\<rparr>],
           next_load := Suc (next_load w),
           trace := trace w @ [CollectionCreated (next_ref w), SrcWritten Null,
              SrcWritten (JStr p), LoaderSetCollection (next_ref w),
              LoaderInitWithPath (JStr p),
              LoaderLoad (next_load w) (JStr p) (Some (next_ref w)) [],
              Fired ''src'' (JStr p)]\<rparr>"
proof (cases "truthy (cfg_src cfg)")
  case False
  then show ?thesis
    by (intro missing) (simp_all add: init_def new_Collection_def error_def emit_def)
next
  case True
  show ?thesis
  proof (cases "isString (cfg_src cfg)")
    case False
    with True show ?thesis
      by (intro not_string) (simp_all add: init_def new_Collection_def error_def emit_def)
  next
    case s: True
    then obtain p where p: "cfg_src cfg = JStr p" by (cases "cfg_src cfg") simp_all
    with True have ne: "p \<noteq> []" by simp
    show ?thesis
      by (rule valid [OF p ne])
        (simp add: init_def new_Collection_def emit_def p ne src_set_valid members_def fun_eq_iff)
  qed
qed

subsection \<open>Handles\<close>

lemma set_add: "set (add h ms) = insert h (set ms)"
  by (auto simp: add_def)

lemma produce_outstanding:
  "lookup_request i w = Some r \<Longrightarrow>
   produce i w =
     w\<lparr>colls := (case load_sink r of
                    None \<Rightarrow> colls w
                  | Some c \<Rightarrow> (colls w)(c := add (next_handle w) (colls w c))),
       next_handle := Suc (next_handle w),
       trace := trace w @ [LoaderProduced i (next_handle w)]\<rparr>"
  by (simp add: produce_def emit_def)

lemma produce_absent: "lookup_request i w = None \<Longrightarrow> produce i w = w"
  by (simp add: produce_def)

lemma allocated_step: "allocated w \<Longrightarrow> allocated (step x w)"
proof (cases x)
  case (Assign v)
  assume "allocated w"
  with Assign show ?thesis
    by (cases v w rule: src_set_cases) (auto simp: allocated_def src_set_valid)
next
  case Destroy
  assume "allocated w"
  with Destroy show ?thesis by (auto simp: allocated_def destroy_def clear_eq)
next
  case (Produce i)
  assume a: "allocated w"
  show ?thesis
  proof (cases "lookup_request i w")
    case None
    with a Produce show ?thesis by (simp add: produce_absent)
  next
    case (Some r)
    with a Produce show ?thesis
      by (cases "load_sink r")
        (auto simp: allocated_def produce_outstanding set_add less_Suc_eq)
  qed
next
  case (Finish i)
  assume "allocated w"
  with Finish show ?thesis
    by (cases "lookup_request i w") (simp_all add: finish_absent finish_outstanding allocated_def)
qed

lemma allocated_init: "allocated w \<Longrightarrow> allocated (init cfg w)"
  by (cases cfg w rule: init_cases) (auto simp: allocated_def)

lemma allocated_boot: "allocated boot"
  by (simp add: allocated_def boot_def)

lemma fresh_from_step: "fresh_from n w \<Longrightarrow> fresh_from n (step x w)"
proof (cases x)
  case (Assign v)
  assume "fresh_from n w"
  with Assign show ?thesis
    by (cases v w rule: src_set_cases) (auto simp: fresh_from_def src_set_valid members_def)
next
  case Destroy
  assume "fresh_from n w"
  with Destroy show ?thesis by (auto simp: fresh_from_def destroy_def clear_eq members_def)
next
  case (Produce i)
  assume a: "fresh_from n w"
  show ?thesis
  proof (cases "lookup_request i w")
    case None
    with a Produce show ?thesis by (simp add: produce_absent)
  next
    case (Some r)
    with a Produce show ?thesis
      by (cases "load_sink r")
        (auto simp: fresh_from_def produce_outstanding set_add members_def)
  qed
next
  case (Finish i)
  assume "fresh_from n w"
  with Finish show ?thesis
    by (cases "lookup_request i w")
      (simp_all add: finish_absent finish_outstanding fresh_from_def members_def)
qed

text \<open>No collection of a world that a Model reaches holds a handle twice.\<close>

lemma distinct_add: "distinct ms \<Longrightarrow> distinct (add h ms)"
  by (simp add: add_def)

lemma tidy_step: "tidy w \<Longrightarrow> tidy (step x w)"
proof (cases x)
  case (Assign v)
  assume "tidy w"
  with Assign show ?thesis
    by (cases v w rule: src_set_cases) (simp_all add: tidy_def src_set_valid)
next
  case Destroy
  assume "tidy w"
  with Destroy show ?thesis by (simp add: tidy_def destroy_def clear_eq)
next
  case (Produce i)
  assume t: "tidy w"
  show ?thesis
  proof (cases "lookup_request i w")
    case None
    with t Produce show ?thesis by (simp add: produce_absent)
  next
    case (Some r)
    with t Produce show ?thesis
      by (cases "load_sink r") (simp_all add: tidy_def produce_outstanding distinct_add)
  qed
next
  case (Finish i)
  assume "tidy w"
  with Finish show ?thesis
    by (cases "lookup_request i w") (simp_all add: finish_absent finish_outstanding tidy_def)
qed

lemma tidy_init: "tidy w \<Longrightarrow> tidy (init cfg w)"
  by (cases cfg w rule: init_cases) (simp_all add: tidy_def)

lemma tidy_boot: "tidy boot"
  by (simp add: tidy_def boot_def)

lemma distinct_members_run: "distinct (members (run ops (init cfg boot)))"
proof -
  have "tidy (init cfg boot)"
    by (rule tidy_init) (rule tidy_boot)
  then have "tidy (run ops (init cfg boot))"
    by (rule run_invariant) (rule tidy_step)
  then show ?thesis
    by (simp add: tidy_def members_def)
qed

subsection \<open>Announcements and completions\<close>

lemma announced_append: "announced i t \<Longrightarrow> announced i (t @ t')"
proof (induction t)
  case Nil
  then show ?case by simp
next
  case step: (Cons a t)
  show ?case
  proof (cases t)
    case Nil
    with step.prems show ?thesis by simp
  next
    case (Cons b u)
    with step.prems step.IH show ?thesis by auto
  qed
qed

lemma announced_here: "announced i (t @ LoaderLoad i p s ms # Fired ''src'' v # t')"
proof (induction t)
  case Nil
  show ?case by (simp add: starts_def is_src_def)
next
  case (Cons a t)
  then show ?case by simp
qed

lemma split_old:
  assumes "xs @ as = pre @ a # post" and "a \<notin> set as"
  obtains post0 where "xs = pre @ a # post0" and "post = post0 @ as"
proof -
  from assms(1) obtain us where
    "(xs = pre @ us \<and> us @ as = a # post) \<or> (xs @ us = pre \<and> as = us @ a # post)"
    by (auto simp: append_eq_append_conv2)
  then show thesis
  proof
    assume h: "xs = pre @ us \<and> us @ as = a # post"
    show thesis
    proof (cases us)
      case Nil
      with h assms(2) show thesis by auto
    next
      case (Cons u us')
      with h that show thesis by auto
    qed
  next
    assume "xs @ us = pre \<and> as = us @ a # post"
    with assms(2) show thesis by auto
  qed
qed

lemma ordered_extend:
  assumes o: "ordered w"
    and t: "trace w' = trace w @ as"
    and n: "\<forall>i. LoaderOnComplete i \<notin> set as"
    and p: "\<forall>r \<in> set (pending w'). r \<in> set (pending w) \<or> announced (load_id r) (trace w')"
  shows "ordered w'"
  unfolding ordered_def
proof (intro conjI ballI allI impI)
  fix r assume "r \<in> set (pending w')"
  with p have "r \<in> set (pending w) \<or> announced (load_id r) (trace w')" by simp
  then show "announced (load_id r) (trace w')"
    using o t by (auto simp: ordered_def announced_append)
next
  fix pre i post assume s: "trace w' = pre @ LoaderOnComplete i # post"
  with t have "trace w @ as = pre @ LoaderOnComplete i # post" by simp
  moreover from n have "LoaderOnComplete i \<notin> set as" by simp
  ultimately obtain post0 where "trace w = pre @ LoaderOnComplete i # post0" "post = post0 @ as"
    by (rule split_old)
  moreover from this(1) o
  have "announced i pre \<and> (\<exists>post'. post0 = Fired ''loaded'' Undefined # post')"
    unfolding ordered_def by blast
  ultimately show "announced i pre" and "\<exists>post'. post = Fired ''loaded'' Undefined # post'"
    by auto
qed

lemma lookup_request_Some:
  "lookup_request i w = Some r \<Longrightarrow> r \<in> set (pending w) \<and> load_id r = i"
  by (auto simp: lookup_request_def find_Some_iff)

lemma ordered_finish:
  assumes o: "ordered w" and l: "lookup_request i w = Some r"
  shows "ordered (finish i w)"
  unfolding ordered_def
proof (intro conjI ballI allI impI)
  fix q assume "q \<in> set (pending (finish i w))"
  with l have "q \<in> set (pending w)" by (simp add: finish_outstanding)
  with o l show "announced (load_id q) (trace (finish i w))"
    by (simp add: finish_outstanding ordered_def announced_append)
next
  fix pre j post assume "trace (finish i w) = pre @ LoaderOnComplete j # post"
  with l have s: "(trace w @ [LoaderOnComplete i]) @ [Fired ''loaded'' Undefined] =
      pre @ LoaderOnComplete j # post"
    by (simp add: finish_outstanding)
  then obtain post1 where s1: "trace w @ [LoaderOnComplete i] = pre @ LoaderOnComplete j # post1"
    and p1: "post = post1 @ [Fired ''loaded'' Undefined]"
    by (rule split_old) simp
  have "announced j pre \<and> (\<exists>post'. post = Fired ''loaded'' Undefined # post')"
  proof (cases post1 rule: rev_cases)
    case Nil
    with s1 have "pre = trace w" "j = i" by simp_all
    moreover from l have "r \<in> set (pending w)" "load_id r = i"
      by (simp_all add: lookup_request_Some)
    ultimately show ?thesis using o p1 Nil by (auto simp: ordered_def)
  next
    case (snoc post0 a)
    with s1 have "trace w = pre @ LoaderOnComplete j # post0" by simp
    with o have "announced j pre \<and> (\<exists>post'. post0 = Fired ''loaded'' Undefined # post')"
      unfolding ordered_def by blast
    with p1 snoc show ?thesis by auto
  qed
  then show "announced j pre" and "\<exists>post'. post = Fired ''loaded'' Undefined # post'"
    by simp_all
qed

lemma ordered_src_set: "ordered w \<Longrightarrow> ordered (src_set v w)"
proof (cases v w rule: src_set_cases)
  case falsy
  assume "ordered w"
  with falsy show ?thesis by simp
next
  case not_string
  assume "ordered w"
  then show ?thesis
    by (rule ordered_extend [where as = "[Report ''Value for 'src' should be a string'']"])
      (simp_all add: not_string)
next
  case (valid p)
  assume "ordered w"
  then show ?thesis
  proof (rule ordered_extend)
    show "trace (src_set v w) = trace w @ (map ComponentDestroyed (rev (members w)) @
         [SrcWritten (JStr p), LoaderSetCollection (m_collection w),
          LoaderInitWithPath (JStr p),
          LoaderLoad (next_load w) (JStr p) (Some (m_collection w)) [],
          Fired ''src'' (JStr p)])"
      by (simp add: valid src_set_valid)
    show "\<forall>i. LoaderOnComplete i \<notin> set (map ComponentDestroyed (rev (members w)) @
         [SrcWritten (JStr p), LoaderSetCollection (m_collection w),
          LoaderInitWithPath (JStr p),
          LoaderLoad (next_load w) (JStr p) (Some (m_collection w)) [],
          Fired ''src'' (JStr p)])"
      by auto
    have "announced (next_load w) (trace (src_set v w))"
      using announced_here [of "next_load w"
          "trace w @ map ComponentDestroyed (rev (members w)) @
            [SrcWritten (JStr p), LoaderSetCollection (m_collection w), LoaderInitWithPath (JStr p)]"
          "JStr p" "Some (m_collection w)" "[]" "JStr p" "[]"]
      by (simp add: valid src_set_valid)
    then show "\<forall>r \<in> set (pending (src_set v w)).
        r \<in> set (pending w) \<or> announced (load_id r) (trace (src_set v w))"
      by (auto simp: valid src_set_valid)
  qed
qed

lemma ordered_step: "ordered w \<Longrightarrow> ordered (step x w)"
proof (cases x)
  case (Assign v)
  assume "ordered w"
  with Assign show ?thesis by (simp add: ordered_src_set)
next
  case Destroy
  assume "ordered w"
  then have "ordered (clear w)"
    by (rule ordered_extend [where as = "map ComponentDestroyed (rev (members w))"])
      (auto simp: clear_eq)
  with Destroy show ?thesis by (simp add: destroy_def)
next
  case (Produce i)
  assume o: "ordered w"
  show ?thesis
  proof (cases "lookup_request i w")
    case None
    with o Produce show ?thesis by (simp add: produce_def)
  next
    case (Some r)
    from o have "ordered (produce i w)"
      by (rule ordered_extend [where as = "[LoaderProduced i (next_handle w)]"])
        (simp_all add: produce_def Some emit_def)
    with Produce show ?thesis by simp
  qed
next
  case (Finish i)
  assume o: "ordered w"
  show ?thesis
  proof (cases "lookup_request i w")
    case None
    with o Finish show ?thesis by (simp add: finish_absent)
  next
    case (Some r)
    with o Finish show ?thesis by (simp add: ordered_finish)
  qed
qed

lemma ordered_boot: "ordered boot"
  by (simp add: ordered_def boot_def)

lemma ordered_init: "ordered w \<Longrightarrow> ordered (init cfg w)"
proof (cases cfg w rule: init_cases)
  case missing
  assume "ordered w"
  then show ?thesis
    by (rule ordered_extend [where as =
          "[CollectionCreated (next_ref w), SrcWritten Null,
            Report (''Config missing: 'src'' @ [CHR 0x27])]"])
      (simp_all add: missing)
next
  case not_string
  assume "ordered w"
  then show ?thesis
    by (rule ordered_extend [where as =
          "[CollectionCreated (next_ref w), SrcWritten Null,
            Report ''Value for config 'src' should be a string'']"])
      (simp_all add: not_string)
next
  case (valid p)
  assume o: "ordered w"
  have "announced (next_load w) (trace (init cfg w))"
    using announced_here [of "next_load w"
        "trace w @ [CollectionCreated (next_ref w), SrcWritten Null,
           SrcWritten (JStr p), LoaderSetCollection (next_ref w),
           LoaderInitWithPath (JStr p)]"
        "JStr p" "Some (next_ref w)" "[]" "JStr p" "[]"]
    by (simp add: valid)
  then show ?thesis
    by (intro ordered_extend [OF o, where as =
          "[CollectionCreated (next_ref w), SrcWritten Null,
            SrcWritten (JStr p), LoaderSetCollection (next_ref w),
            LoaderInitWithPath (JStr p),
            LoaderLoad (next_load w) (JStr p) (Some (next_ref w)) [],
            Fired ''src'' (JStr p)]"])
      (auto simp: valid)
qed

section \<open>Clearing the collection\<close>

text \<open>
  C3 (amended). \<^verbatim>\<open>_clear\<close> first copies the collection's members, in
  insertion order, into a temporary array. It then calls each member's own
  \<^verbatim>\<open>destroy\<close>, taking the members from the end of the array: the calls come
  in the reverse of the snapshot order, last inserted first. The calls follow
  the snapshot, not the live collection, which loses a member with every call;
  when the loop ends the collection is empty.
\<close>

theorem clear_snapshot_reverse:
  "snapshot w = members w \<and>
   new_actions w (clear w) = map ComponentDestroyed (rev (snapshot w)) \<and>
   members (clear w) = []"
  by (simp add: snapshot_members members_clear new_actions_clear)

text \<open>
  C3 as stated asks for the destroy calls in snapshot (insertion) order. With the
  members \<open>0\<close> and \<open>1\<close> inserted in that order, \<open>1\<close> is destroyed first.
\<close>

theorem clear_insertion_order_counterexample:
  "snapshot loaded_two = [0, 1] \<and>
   new_actions loaded_two (clear loaded_two) = [ComponentDestroyed 1, ComponentDestroyed 0]"
  by (simp add: snapshot_members loaded_two_members new_actions_clear)

section \<open>Destroying the Model\<close>

text \<open>
  C7. \<^verbatim>\<open>destroy\<close> is idempotent. The first call destroys every object that
  is in the collection, each exactly once, and leaves the collection empty; a
  second call changes nothing: it reports no error and destroys no object
  again. A collection is a set: its members are distinct, as they are in every
  world a Model reaches (\<open>distinct_members_run\<close>).
\<close>

theorem destroy_idempotent:
  assumes "distinct (members w)"
  shows "new_actions w (destroy w) = map ComponentDestroyed (rev (members w)) \<and>
         (\<forall>h \<in> set (members w).
            count_list (new_actions w (destroy w)) (ComponentDestroyed h) = 1) \<and>
         members (destroy w) = [] \<and>
         destroy (destroy w) = destroy w"
proof -
  have "count_list (map ComponentDestroyed ms) (ComponentDestroyed h) = count_list ms h"
    for ms :: "handle list" and h
    by (induction ms) simp_all
  moreover have "count_list ms h = 1" if "distinct ms" "h \<in> set ms"
    for ms :: "handle list" and h
    using that by (induction ms) (auto simp: count_notin)
  ultimately have once: "count_list (map ComponentDestroyed (rev ms)) (ComponentDestroyed h) = 1"
    if "distinct ms" "h \<in> set ms" for ms :: "handle list" and h
    using that by (simp add: count_list_rev flip: rev_map)
  have "destroy (destroy w) = destroy w"
    by (simp add: destroy_def clear_empty members_clear)
  with assms once show ?thesis
    by (simp add: destroy_def new_actions_clear members_clear)
qed

text \<open>
  The theorem at a Model whose collection holds the objects \<open>0\<close> and \<open>1\<close>.
\<close>

theorem destroy_idempotent_witness:
  "distinct (members loaded_two) \<and>
   new_actions loaded_two (destroy loaded_two) = [ComponentDestroyed 1, ComponentDestroyed 0] \<and>
   count_list (new_actions loaded_two (destroy loaded_two)) (ComponentDestroyed 0) = 1 \<and>
   count_list (new_actions loaded_two (destroy loaded_two)) (ComponentDestroyed 1) = 1 \<and>
   members (destroy loaded_two) = [] \<and>
   destroy (destroy loaded_two) = destroy loaded_two"
proof -
  have d: "distinct (members loaded_two)"
    by (simp add: loaded_two_members)
  show ?thesis
    using d destroy_idempotent [OF d] by (simp add: loaded_two_members)
qed

section \<open>Completion callbacks\<close>

text \<open>
  C1 (amended). A completion callback that belongs to a superseded (stale)
  assignment is not ignored. Whenever the loader completes an outstanding
  request, superseded or current, the callback fires \<^verbatim>\<open>"loaded"\<close>, once, and
  the request is gone. The callback itself puts no object into any collection
  and changes neither the path nor the collection the Model holds.
\<close>

theorem stale_callback_fires_loaded:
  assumes "lookup_request i w = Some r"
  shows "new_actions w (finish i w) = [LoaderOnComplete i, Fired ''loaded'' Undefined] \<and>
         colls (finish i w) = colls w \<and>
         src_get (finish i w) = src_get w \<and>
         collection_get (finish i w) = collection_get w"
  using assms by (simp add: finish_outstanding new_actions_def src_get_def collection_get_def)

text \<open>
  The theorem at the request of \<^verbatim>\<open>a.gltf\<close>, superseded by the assignment of
  \<^verbatim>\<open>b.gltf\<close>.
\<close>

theorem stale_callback_fires_loaded_witness:
  "lookup_request 0 reassigned =
     Some \<lparr>load_id = 0, load_path = JStr ''a.gltf'', load_sink = Some 0,
           on_complete = OnLoaded\<rparr> \<and>
   superseded 0 reassigned \<and>
   new_actions reassigned (finish 0 reassigned) =
     [LoaderOnComplete 0, Fired ''loaded'' Undefined] \<and>
   colls (finish 0 reassigned) = colls reassigned \<and>
   src_get (finish 0 reassigned) = JStr ''b.gltf''"
proof -
  have r: "lookup_request 0 reassigned =
     Some \<lparr>load_id = 0, load_path = JStr ''a.gltf'', load_sink = Some 0,
           on_complete = OnLoaded\<rparr>"
    by (simp add: lookup_request_def reassigned_eq)
  have s: "superseded 0 reassigned"
    by (simp add: superseded_def r) (simp add: reassigned_eq)
  have p: "src_get reassigned = JStr ''b.gltf''"
    by (simp add: src_get_def reassigned_eq)
  show ?thesis
    using r s p stale_callback_fires_loaded [OF r] by simp
qed

text \<open>
  C1 as stated says that the callback of a superseded load does not fire
  \<^verbatim>\<open>"loaded"\<close>. After \<^verbatim>\<open>a.gltf\<close> and then \<^verbatim>\<open>b.gltf\<close> were assigned, load
  \<open>0\<close> is superseded, and its completion fires \<^verbatim>\<open>"loaded"\<close>.
\<close>

theorem stale_callback_ignored_counterexample:
  "superseded 0 reassigned \<and>
   Fired ''loaded'' Undefined \<in> set (new_actions reassigned (finish 0 reassigned))"
proof -
  have r: "lookup_request 0 reassigned =
     Some \<lparr>load_id = 0, load_path = JStr ''a.gltf'', load_sink = Some 0,
           on_complete = OnLoaded\<rparr>"
    by (simp add: lookup_request_def reassigned_eq)
  have s: "superseded 0 reassigned"
    by (simp add: superseded_def r) (simp add: reassigned_eq)
  have "trace (finish 0 reassigned) =
          trace reassigned @ [LoaderOnComplete 0, Fired ''loaded'' Undefined]"
    by (simp add: finish_outstanding [OF r])
  then have "new_actions reassigned (finish 0 reassigned) =
          [LoaderOnComplete 0, Fired ''loaded'' Undefined]"
    by (rule new_actions_append)
  with s show ?thesis by simp
qed

section \<open>Assigning a path\<close>

text \<open>
  C2. For a non-empty string the setter does, in this order: it destroys every
  object of the collection, which is empty afterwards; it records the new path
  in \<^verbatim>\<open>_src\<close>; it hands the collection and the path to the loader and starts
  the load, the sink being empty at that moment; it fires \<^verbatim>\<open>"src"\<close> with the
  new path. When the setter returns the request is outstanding: nothing has
  completed.
\<close>

theorem src_set_order:
  assumes "p \<noteq> []"
  shows "new_actions w (src_set (JStr p) w) =
           map ComponentDestroyed (rev (members w)) @
           [SrcWritten (JStr p),
            LoaderSetCollection (collection_get w),
            LoaderInitWithPath (JStr p),
            LoaderLoad (next_load w) (JStr p) (Some (collection_get w)) [],
            Fired ''src'' (JStr p)] \<and>
         members (src_set (JStr p) w) = [] \<and>
         src_get (src_set (JStr p) w) = JStr p \<and>
         pending (src_set (JStr p) w) =
           pending w @
           [\<lparr>load_id = next_load w, load_path = JStr p,
             load_sink = Some (collection_get w), on_complete = OnLoaded\<rparr>]"
  using assms
  by (simp add: src_set_valid new_actions_def members_def src_get_def collection_get_def)

text \<open>
  The theorem at a Model that holds two objects and is given \<^verbatim>\<open>b.gltf\<close>.
\<close>

theorem src_set_order_witness:
  "''b.gltf'' \<noteq> [] \<and>
   new_actions loaded_two (src_set (JStr ''b.gltf'') loaded_two) =
     [ComponentDestroyed 1, ComponentDestroyed 0,
      SrcWritten (JStr ''b.gltf''), LoaderSetCollection 0,
      LoaderInitWithPath (JStr ''b.gltf''),
      LoaderLoad 1 (JStr ''b.gltf'') (Some 0) [],
      Fired ''src'' (JStr ''b.gltf'')] \<and>
   members (src_set (JStr ''b.gltf'') loaded_two) = [] \<and>
   src_get (src_set (JStr ''b.gltf'') loaded_two) = JStr ''b.gltf''"
proof -
  have n: "''b.gltf'' \<noteq> []" by simp
  have c: "collection_get loaded_two = 0" "next_load loaded_two = 1"
    by (simp_all add: collection_get_def loaded_two_def run_def constructed_eq produce_def
        lookup_request_def emit_def)
  show ?thesis
    using src_set_order [OF n, of loaded_two] by (simp add: loaded_two_members c)
qed

text \<open>
  C8. Assigning the path the Model already has is a full clear and reload: the
  objects of the collection are destroyed and the collection is empty, the
  loader is asked again (a new load with a number of its own), and whatever
  the collection holds from then on is none of the objects it held before.
\<close>

theorem same_path_reloads:
  assumes "w = run ops (init cfg boot)" and "src_get w = JStr p"
  shows "new_actions w (src_set (JStr p) w) =
           map ComponentDestroyed (rev (members w)) @
           [SrcWritten (JStr p),
            LoaderSetCollection (collection_get w),
            LoaderInitWithPath (JStr p),
            LoaderLoad (next_load w) (JStr p) (Some (collection_get w)) [],
            Fired ''src'' (JStr p)] \<and>
         members (src_set (JStr p) w) = [] \<and>
         src_get (src_set (JStr p) w) = JStr p \<and>
         (\<forall>more. set (members (run more (src_set (JStr p) w))) \<inter> set (members w) = {})"
proof -
  have "path_or_null (m_src (init cfg boot))"
    by (cases cfg boot rule: init_cases) (simp_all add: path_or_null_def)
  then have "path_or_null (m_src (run ops (init cfg boot)))"
    by (rule run_invariant) (rule m_src_step)
  with assms have ne: "p \<noteq> []"
    by (simp add: src_get_def path_or_null_def)
  have "allocated (init cfg boot)"
    by (rule allocated_init) (rule allocated_boot)
  then have "allocated (run ops (init cfg boot))"
    by (rule run_invariant) (rule allocated_step)
  with assms(1) have old: "\<forall>h \<in> set (members w). h < next_handle w"
    by (simp add: allocated_def members_def)
  have "fresh_from (next_handle w) (src_set (JStr p) w)"
    by (simp add: fresh_from_def src_set_valid [OF ne] members_def)
  then have "fresh_from (next_handle w) (run more (src_set (JStr p) w))" for more
    by (rule run_invariant) (rule fresh_from_step)
  with old have "set (members (run more (src_set (JStr p) w))) \<inter> set (members w) = {}"
    for more
    by (fastforce simp: fresh_from_def)
  then show ?thesis
    by (simp add: src_set_valid [OF ne] new_actions_def members_def src_get_def
        collection_get_def)
qed

text \<open>
  The theorem at a Model that has loaded \<^verbatim>\<open>a.gltf\<close> (objects \<open>0\<close> and \<open>1\<close>)
  and is given \<^verbatim>\<open>a.gltf\<close> again.
\<close>

theorem same_path_reloads_witness:
  "loaded = run [Produce 0, Produce 0, Finish 0] (init \<lparr>cfg_src = JStr ''a.gltf''\<rparr> boot) \<and>
   src_get loaded = JStr ''a.gltf'' \<and>
   members loaded = [0, 1] \<and>
   new_actions loaded (src_set (JStr ''a.gltf'') loaded) =
     [ComponentDestroyed 1, ComponentDestroyed 0,
      SrcWritten (JStr ''a.gltf''), LoaderSetCollection 0,
      LoaderInitWithPath (JStr ''a.gltf''),
      LoaderLoad 1 (JStr ''a.gltf'') (Some 0) [],
      Fired ''src'' (JStr ''a.gltf'')] \<and>
   members (src_set (JStr ''a.gltf'') loaded) = [] \<and>
   set (members (run [Produce 1, Produce 1, Finish 1] (src_set (JStr ''a.gltf'') loaded)))
     \<inter> set (members loaded) = {}"
proof -
  have r: "loaded = run [Produce 0, Produce 0, Finish 0] (init \<lparr>cfg_src = JStr ''a.gltf''\<rparr> boot)"
    by (simp add: loaded_def constructed_def)
  have s: "src_get loaded = JStr ''a.gltf''"
    by (simp add: src_get_def loaded_eq)
  have m: "members loaded = [0, 1]" "collection_get loaded = 0" "next_load loaded = 1"
    by (simp_all add: members_def collection_get_def loaded_eq)
  from same_path_reloads [OF r s]
  have "new_actions loaded (src_set (JStr ''a.gltf'') loaded) =
     map ComponentDestroyed (rev (members loaded)) @
     [SrcWritten (JStr ''a.gltf''), LoaderSetCollection (collection_get loaded),
      LoaderInitWithPath (JStr ''a.gltf''),
      LoaderLoad (next_load loaded) (JStr ''a.gltf'') (Some (collection_get loaded)) [],
      Fired ''src'' (JStr ''a.gltf'')]"
    and "members (src_set (JStr ''a.gltf'') loaded) = []"
    and "set (members (run [Produce 1, Produce 1, Finish 1] (src_set (JStr ''a.gltf'') loaded)))
           \<inter> set (members loaded) = {}"
    by blast+
  with r s m show ?thesis by simp
qed

section \<open>Rejected assignments\<close>

text \<open>
  C5 (amended). For a value that is truthy and not a string the setter reports
  \<^verbatim>\<open>Value for 'src' should be a string\<close> and does nothing else: the path,
  the collections, the loader and its requests are as before, nothing is fired
  and no load is started.
\<close>

theorem src_set_not_string:
  assumes "truthy value" and "\<not> isString value"
  shows "src_set value w = w\<lparr>trace := trace w @ [Report ''Value for 'src' should be a string'']\<rparr>"
  using assms by (simp add: src_set_def error_def emit_def)

text \<open>
  The theorem at the value \<open>7\<close>.
\<close>

theorem src_set_not_string_witness:
  "truthy (JNum 7) \<and> \<not> isString (JNum 7) \<and>
   src_set (JNum 7) constructed =
     constructed\<lparr>trace := trace constructed @ [Report ''Value for 'src' should be a string'']\<rparr>"
proof -
  have t: "truthy (JNum 7)" and s: "\<not> isString (JNum 7)" by simp_all
  show ?thesis using t s src_set_not_string [OF t s, of constructed] by simp
qed

text \<open>
  C5 as stated has the error reported for every value that is not a string.
  The number \<open>0\<close> is not a string; \<^verbatim>\<open>!value\<close> holds of it, the setter returns
  at its first test, and nothing is reported.
\<close>

theorem src_set_falsy_not_reported_counterexample:
  "\<not> isString (JNum 0) \<and> new_actions constructed (src_set (JNum 0) constructed) = []"
  by (simp add: src_set_def new_actions_def)

text \<open>
  C6 (amended). For a falsy value (the empty string, \<^verbatim>\<open>undefined\<close>,
  \<^verbatim>\<open>null\<close>, \<^verbatim>\<open>false\<close>, \<open>0\<close>, \<^verbatim>\<open>NaN\<close>) the setter does nothing at all:
  no state changes, nothing is fired, no load is started, and nothing is
  logged or reported.
\<close>

theorem src_set_falsy:
  assumes "\<not> truthy value"
  shows "src_set value w = w"
  using assms by (simp add: src_set_def)

text \<open>
  The theorem at the empty string and at \<^verbatim>\<open>undefined\<close>.
\<close>

theorem src_set_falsy_witness:
  "\<not> truthy (JStr []) \<and> src_set (JStr []) constructed = constructed \<and>
   \<not> truthy Undefined \<and> src_set Undefined constructed = constructed"
proof -
  have e: "\<not> truthy (JStr [])" and u: "\<not> truthy Undefined" by simp_all
  show ?thesis
    using e u src_set_falsy [OF e, of constructed] src_set_falsy [OF u, of constructed]
    by simp
qed

text \<open>
  C6 as stated has the ignored assignment logged. The setter returns at
  \<^verbatim>\<open>if (!value) { return; }\<close> without a call of any kind: assigning the
  empty string appends nothing to the trace, which is where a report would
  stand.
\<close>

theorem src_set_empty_not_logged_counterexample:
  "\<not> truthy (JStr []) \<and> new_actions constructed (src_set (JStr []) constructed) = []"
  by (simp add: src_set_def new_actions_def)

section \<open>The order of the notifications\<close>

text \<open>
  C4. In every run of a Model, whenever the loader completes load \<open>i\<close> and the
  callback fires \<^verbatim>\<open>"loaded"\<close>, the trace before that point holds the start of
  load \<open>i\<close> followed by the \<^verbatim>\<open>"src"\<close> notification of the assignment that
  started it: \<^verbatim>\<open>"src"\<close> comes before the \<^verbatim>\<open>"loaded"\<close> of the same
  assignment.
\<close>

theorem src_before_loaded:
  assumes "trace (run ops (init cfg boot)) = pre @ LoaderOnComplete i # post"
  shows "announced i pre \<and> (\<exists>post'. post = Fired ''loaded'' Undefined # post')"
proof -
  have "ordered (init cfg boot)"
    by (rule ordered_init) (rule ordered_boot)
  then have "ordered (run ops (init cfg boot))"
    by (rule run_invariant) (rule ordered_step)
  with assms show ?thesis by (simp add: ordered_def)
qed

text \<open>
  The theorem at the run in which the load of the constructor completes.
\<close>

theorem src_before_loaded_witness:
  "trace (run [Finish 0] (init \<lparr>cfg_src = JStr ''a.gltf''\<rparr> boot)) =
     [CollectionCreated 0, SrcWritten Null, SrcWritten (JStr ''a.gltf''),
      LoaderSetCollection 0, LoaderInitWithPath (JStr ''a.gltf''),
      LoaderLoad 0 (JStr ''a.gltf'') (Some 0) [], Fired ''src'' (JStr ''a.gltf'')] @
     LoaderOnComplete 0 # [Fired ''loaded'' Undefined] \<and>
   announced 0
     [CollectionCreated 0, SrcWritten Null, SrcWritten (JStr ''a.gltf''),
      LoaderSetCollection 0, LoaderInitWithPath (JStr ''a.gltf''),
      LoaderLoad 0 (JStr ''a.gltf'') (Some 0) [], Fired ''src'' (JStr ''a.gltf'')]"
proof -
  have t: "trace (run [Finish 0] (init \<lparr>cfg_src = JStr ''a.gltf''\<rparr> boot)) =
     [CollectionCreated 0, SrcWritten Null, SrcWritten (JStr ''a.gltf''),
      LoaderSetCollection 0, LoaderInitWithPath (JStr ''a.gltf''),
      LoaderLoad 0 (JStr ''a.gltf'') (Some 0) [], Fired ''src'' (JStr ''a.gltf'')] @
     LoaderOnComplete 0 # [Fired ''loaded'' Undefined]"
    by (simp add: run_def finish_def lookup_request_def emit_def fire_def
        constructed_eq [unfolded constructed_def])
  show ?thesis
    using t src_before_loaded [OF t] by simp
qed

section \<open>The serialised state\<close>

text \<open>
  C9. In every state a Model reaches, \<^verbatim>\<open>_getJSON\<close> is the record with the
  single field \<^verbatim>\<open>src\<close> (the spec's path), whose value is the current path
  or \<^verbatim>\<open>null\<close>; the contents of the collections are no part of it.
\<close>

theorem getJSON_path_only:
  "getJSON (run ops (init cfg w)) = [(''src'', src_get (run ops (init cfg w)))] \<and>
   path_or_null (src_get (run ops (init cfg w))) \<and>
   getJSON ((run ops (init cfg w))\<lparr>colls := cs\<rparr>) = getJSON (run ops (init cfg w))"
proof -
  have "path_or_null (m_src (init cfg w))"
    by (cases cfg w rule: init_cases) (simp_all add: path_or_null_def)
  then have "path_or_null (m_src (run ops (init cfg w)))"
    by (rule run_invariant) (rule m_src_step)
  then show ?thesis
    by (simp add: getJSON_def src_get_def)
qed

section \<open>Construction\<close>

text \<open>
  C10. Every construction creates the collection exactly once, as its first
  act, before the config is looked at, and the collection is empty. A
  construction whose \<^verbatim>\<open>src\<close> is absent or not a string reports one error
  after that, leaves the path \<^verbatim>\<open>null\<close> and starts no load. After any
  construction and any run the getter returns the collection that the
  constructor created.
\<close>

theorem init_collection_once:
  "creations (new_actions w (init cfg w)) = 1 \<and>
   hd (new_actions w (init cfg w)) = CollectionCreated (collection_get (init cfg w)) \<and>
   members (init cfg w) = [] \<and>
   (\<not> (truthy (cfg_src cfg) \<and> isString (cfg_src cfg)) \<longrightarrow>
      (\<exists>msg. new_actions w (init cfg w) =
         [CollectionCreated (collection_get (init cfg w)), SrcWritten Null, Report msg]) \<and>
      src_get (init cfg w) = Null \<and>
      pending (init cfg w) = pending w \<and>
      next_load (init cfg w) = next_load w) \<and>
   collection_get (run ops (init cfg w)) = collection_get (init cfg w)"
  by (cases cfg w rule: init_cases)
    (simp_all add: new_actions_def creations_def collection_get_def src_get_def members_def
      m_collection_run)

text \<open>
  The theorem at the config \<^verbatim>\<open>{src: 3}\<close> and at the config \<^verbatim>\<open>{}\<close>.
\<close>

theorem init_collection_once_witness:
  "\<not> (truthy (cfg_src \<lparr>cfg_src = JNum 3\<rparr>) \<and> isString (cfg_src \<lparr>cfg_src = JNum 3\<rparr>)) \<and>
   creations (new_actions boot (init \<lparr>cfg_src = JNum 3\<rparr> boot)) = 1 \<and>
   new_actions boot (init \<lparr>cfg_src = JNum 3\<rparr> boot) =
     [CollectionCreated 0, SrcWritten Null, Report ''Value for config 'src' should be a string''] \<and>
   src_get (init \<lparr>cfg_src = JNum 3\<rparr> boot) = Null \<and>
   pending (init \<lparr>cfg_src = JNum 3\<rparr> boot) = [] \<and>
   collection_get (run [Assign (JStr ''a.gltf''), Produce 0, Destroy] (init \<lparr>cfg_src = JNum 3\<rparr> boot)) = 0 \<and>
   \<not> (truthy (cfg_src \<lparr>cfg_src = Undefined\<rparr>) \<and> isString (cfg_src \<lparr>cfg_src = Undefined\<rparr>)) \<and>
   new_actions boot (init \<lparr>cfg_src = Undefined\<rparr> boot) =
     [CollectionCreated 0, SrcWritten Null, Report (''Config missing: 'src'' @ [CHR 0x27])] \<and>
   src_get (init \<lparr>cfg_src = Undefined\<rparr> boot) = Null \<and>
   pending (init \<lparr>cfg_src = Undefined\<rparr> boot) = []"
proof -
  have e: "init \<lparr>cfg_src = JNum 3\<rparr> boot =
     boot\<lparr>next_ref := 1, m_collection := 0, m_src := Null,
       trace := [CollectionCreated 0, SrcWritten Null,
                 Report ''Value for config 'src' should be a string'']\<rparr>"
    by (simp add: init_def new_Collection_def error_def emit_def boot_def fun_eq_iff)
  have u: "init \<lparr>cfg_src = Undefined\<rparr> boot =
     boot\<lparr>next_ref := 1, m_collection := 0, m_src := Null,
       trace := [CollectionCreated 0, SrcWritten Null,
                 Report (''Config missing: 'src'' @ [CHR 0x27])]\<rparr>"
    by (simp add: init_def new_Collection_def error_def emit_def boot_def fun_eq_iff)
  have "creations (new_actions boot (init \<lparr>cfg_src = JNum 3\<rparr> boot)) = 1 \<and>
     collection_get (run [Assign (JStr ''a.gltf''), Produce 0, Destroy]
       (init \<lparr>cfg_src = JNum 3\<rparr> boot)) = collection_get (init \<lparr>cfg_src = JNum 3\<rparr> boot)"
    using init_collection_once [of boot "\<lparr>cfg_src = JNum 3\<rparr>"
        "[Assign (JStr ''a.gltf''), Produce 0, Destroy]"]
    by simp
  then show ?thesis
    by (simp add: e u new_actions_def collection_get_def src_get_def) (simp add: boot_def)
qed

end
